theory Spec2Isabelle
  imports Complex_Main "HOL-Library.Word"
begin

section \<open>The sequential replay buffer of dynamics-toolbox\<close>

text \<open>
  Source: \<^verbatim>\<open>dynamics_toolbox/rl/buffers/sequential_buffer.py\<close>.

  The numpy arrays of the buffer are nested lists: the first axis ranges over the slots of
  the ring, the second over the time steps of one window, and one time step of an
  observation or of an action is a row of reals (the feature axis). Rewards, terminals and
  masks have a last axis of size one; their rows are single values. Terminals and masks are
  \<^verbatim>\<open>uint8\<close> arrays, that is 8-bit words. The width of the feature axis is fixed when the
  buffer is built and every supplied row is taken to have that width, so a row is copied
  as one value.

  Exceptions are values of the type \<open>error\<close>; a function that may raise returns
  \<open>error + 'a\<close>. A call that raises returns the error alone: what it had written
  into the buffer before is not kept.
\<close>

datatype error = IndexError | ValueError | NotImplementedError | ZeroDivisionError

subsection \<open>Slices of numpy arrays along the time axis\<close>

text \<open>\<^verbatim>\<open>xs[lo:hi]\<close> for non-negative bounds: out-of-range bounds are clipped.\<close>

definition py_slice :: "'a list \<Rightarrow> nat \<Rightarrow> nat \<Rightarrow> 'a list" where
  "py_slice xs lo hi = take (hi - lo) (drop lo xs)"

text \<open>
  \<^verbatim>\<open>row[lo:hi] = src\<close>: the number of rows of the source must be that of the target slice,
  or one (the single row is then broadcast); any other source raises \<^verbatim>\<open>ValueError\<close>.
\<close>

definition set_slice :: "'a list \<Rightarrow> nat \<Rightarrow> nat \<Rightarrow> 'a list \<Rightarrow> error + 'a list" where
  "set_slice row lo hi src =
     (let n = length (py_slice row lo hi) in
      if length src = n then Inr (take lo row @ src @ drop (lo + n) row)
      else if length src = 1 then Inr (take lo row @ replicate n (hd src) @ drop (lo + n) row)
      else Inl ValueError)"

text \<open>\<^verbatim>\<open>row[lo:hi] = v\<close> for a scalar \<open>v\<close>.\<close>

definition fill_slice :: "'a list \<Rightarrow> nat \<Rightarrow> nat \<Rightarrow> 'a \<Rightarrow> 'a list" where
  "fill_slice row lo hi v =
     (let n = length (py_slice row lo hi) in take lo row @ replicate n v @ drop (lo + n) row)"

text \<open>
  \<^verbatim>\<open>buff[t, lo:hi] = src\<close> and \<^verbatim>\<open>buff[t, lo:hi] = v\<close>: the index \<open>t\<close> on the first axis
  raises \<^verbatim>\<open>IndexError\<close> when it is out of range.
\<close>

definition store_rows :: "'a list list \<Rightarrow> nat \<Rightarrow> nat \<Rightarrow> nat \<Rightarrow> 'a list \<Rightarrow> error + 'a list list" where
  "store_rows buff t lo hi src =
     (if t < length buff then
        (case set_slice (buff ! t) lo hi src of
           Inl err \<Rightarrow> Inl err
         | Inr r \<Rightarrow> Inr (buff[t := r]))
      else Inl IndexError)"

definition fill_rows :: "'a list list \<Rightarrow> nat \<Rightarrow> nat \<Rightarrow> nat \<Rightarrow> 'a \<Rightarrow> error + 'a list list" where
  "fill_rows buff t lo hi v =
     (if t < length buff then Inr (buff[t := fill_slice (buff ! t) lo hi v])
      else Inl IndexError)"

subsection \<open>Paths and the buffer\<close>

text \<open>
  A path is the dictionary handed to \<^verbatim>\<open>add_paths\<close>, and also the dictionary of a flat
  dataset: the keys \<^verbatim>\<open>observations\<close>, \<^verbatim>\<open>next_observations\<close>, \<^verbatim>\<open>actions\<close>, \<^verbatim>\<open>rewards\<close>,
  \<^verbatim>\<open>terminals\<close> and the optional \<^verbatim>\<open>masks\<close>. \<^verbatim>\<open>add_paths\<close> overwrites
  \<^verbatim>\<open>next_observations\<close> before it reads it.
\<close>

record path =
  observations :: "real list list"
  next_observations :: "real list list"
  actions :: "real list list"
  rewards :: "real list"
  terminals :: "8 word list"
  masks :: "8 word list option"

record buffer =
  self_obs_dim :: nat
  self_act_dim :: nat
  self_max_size :: nat
  self_lookback :: nat
  self_observations :: "real list list list"
  self_next_observations :: "real list list list"
  self_actions :: "real list list list"
  self_rewards :: "real list list"
  self_terminals :: "8 word list list"
  self_masks :: "8 word list list"
  self_top :: nat
  self_size :: nat

text \<open>The offline buffer is a subclass with one more attribute.\<close>

record offline_buffer = buffer +
  self_starts :: "real list list"

text \<open>The dictionary returned by \<^verbatim>\<open>sample_batch\<close>.\<close>

record batch =
  batch_observations :: "real list list list"
  batch_next_observations :: "real list list list"
  batch_actions :: "real list list list"
  batch_rewards :: "real list list"
  batch_terminals :: "8 word list list"
  batch_masks :: "8 word list list"

subsection \<open>\<^verbatim>\<open>clear_buffer\<close> and the constructor\<close>

definition clear_buffer :: "'z buffer_scheme \<Rightarrow> 'z buffer_scheme" where
  "clear_buffer b =
     b\<lparr>self_observations :=
         replicate (self_max_size b) (replicate (self_lookback b) (replicate (self_obs_dim b) 0)),
       self_next_observations :=
         replicate (self_max_size b) (replicate (self_lookback b) (replicate (self_obs_dim b) 0)),
       self_actions :=
         replicate (self_max_size b) (replicate (self_lookback b + 1) (replicate (self_act_dim b) 0)),
       self_rewards := replicate (self_max_size b) (replicate (self_lookback b + 1) 0),
       self_terminals := replicate (self_max_size b) (replicate (self_lookback b) 0),
       self_masks := replicate (self_max_size b) (replicate (self_lookback b) 0),
       self_top := 0,
       self_size := 0\<rparr>"

definition init :: "nat \<Rightarrow> nat \<Rightarrow> nat \<Rightarrow> nat \<Rightarrow> buffer" where
  "init obs_dim act_dim max_buffer_size lookback =
     clear_buffer
       \<lparr>self_obs_dim = obs_dim, self_act_dim = act_dim, self_max_size = max_buffer_size,
        self_lookback = lookback, self_observations = [], self_next_observations = [],
        self_actions = [], self_rewards = [], self_terminals = [], self_masks = [],
        self_top = 0, self_size = 0\<rparr>"

subsection \<open>\<^verbatim>\<open>_advance\<close>\<close>

definition advance :: "'z buffer_scheme \<Rightarrow> error + 'z buffer_scheme" where
  "advance b =
     (if self_max_size b = 0 then Inl ZeroDivisionError
      else Inr (b\<lparr>self_top := (self_top b + 1) mod self_max_size b,
                  self_size := (if self_size b < self_max_size b then self_size b + 1
                                else self_size b)\<rparr>))"

subsection \<open>\<^verbatim>\<open>add_paths\<close>\<close>

text \<open>
  Lines 105 and 106: the observations of a path are split into the next observations
  (all but the first) and the observations (all but the last).
\<close>

definition split_observations :: "path \<Rightarrow> path" where
  "split_observations p =
     p\<lparr>next_observations := tl (observations p), observations := butlast (observations p)\<rparr>"

text \<open>
  Lines 112 to 118: the length of a path is the first index at which the mask minus one is
  not zero; without a mask, or with a mask that has no such index, it is the number of
  actions.
\<close>

definition argwhere_minus_one :: "8 word list \<Rightarrow> nat list" where
  "argwhere_minus_one m = filter (\<lambda>i. m ! i - 1 \<noteq> 0) [0..<length m]"

definition path_length :: "path \<Rightarrow> nat" where
  "path_length p =
     (case masks p of
        None \<Rightarrow> length (actions p)
      | Some m \<Rightarrow> (case argwhere_minus_one m of [] \<Rightarrow> length (actions p) | i # _ \<Rightarrow> i))"

text \<open>Line 119: \<^verbatim>\<open>range(0, max(length - self._lookback + 1, 1))\<close>, on Python's integers.\<close>

definition window_starts :: "nat \<Rightarrow> nat \<Rightarrow> nat list" where
  "window_starts lb len = [0..<nat (max (int len - int lb + 1) 1)]"

text \<open>
  Lines 120 to 133, the body of the inner loop: one window is written at slot
  \<^verbatim>\<open>self._top\<close> and the cursor advances. The writes happen in the order of the source; the
  first one that raises ends the call.
\<close>

definition write_window :: "'z buffer_scheme \<Rightarrow> path \<Rightarrow> nat \<Rightarrow> nat \<Rightarrow> error + 'z buffer_scheme" where
  "write_window b p len strt =
     (let e = min (strt + self_lookback b) (strt + len); t = self_top b in
      case store_rows (self_actions b) t 1 (e - strt + 1) (py_slice (actions p) strt e) of
        Inl err \<Rightarrow> Inl err
      | Inr acts \<Rightarrow>
      (case store_rows (self_rewards b) t 1 (e - strt + 1) (py_slice (rewards p) strt e) of
        Inl err \<Rightarrow> Inl err
      | Inr rews \<Rightarrow>
      (case store_rows (self_observations b) t 0 (e - strt) (py_slice (observations p) strt e) of
        Inl err \<Rightarrow> Inl err
      | Inr obs \<Rightarrow>
      (case store_rows (self_next_observations b) t 0 (e - strt)
             (py_slice (next_observations p) strt e) of
        Inl err \<Rightarrow> Inl err
      | Inr nxts \<Rightarrow>
      (case store_rows (self_terminals b) t 0 (e - strt) (py_slice (terminals p) strt e) of
        Inl err \<Rightarrow> Inl err
      | Inr terms \<Rightarrow>
      (case (case masks p of
              Some m \<Rightarrow> store_rows (self_masks b) t 0 (e - strt) (py_slice m strt e)
            | None \<Rightarrow> fill_rows (self_masks b) t 0 (e - strt) 1) of
        Inl err \<Rightarrow> Inl err
      | Inr msks \<Rightarrow>
      (case fill_rows msks t (e - strt) (length (msks ! t)) 0 of
        Inl err \<Rightarrow> Inl err
      | Inr msks' \<Rightarrow>
          advance (b\<lparr>self_actions := acts, self_rewards := rews, self_observations := obs,
                      self_next_observations := nxts, self_terminals := terms,
                      self_masks := msks'\<rparr>))))))))"

fun write_windows :: "'z buffer_scheme \<Rightarrow> path \<Rightarrow> nat \<Rightarrow> nat list \<Rightarrow> error + 'z buffer_scheme" where
  "write_windows b p len [] = Inr b"
| "write_windows b p len (strt # ss) =
     (case write_window b p len strt of
        Inl err \<Rightarrow> Inl err
      | Inr b' \<Rightarrow> write_windows b' p len ss)"

text \<open>The body of the outer loop, for one path whose observations are already split.\<close>

definition add_path :: "'z buffer_scheme \<Rightarrow> path \<Rightarrow> error + 'z buffer_scheme" where
  "add_path b p =
     (let len = path_length p in write_windows b p len (window_starts (self_lookback b) len))"

fun add_path_list :: "'z buffer_scheme \<Rightarrow> path list \<Rightarrow> error + 'z buffer_scheme" where
  "add_path_list b [] = Inr b"
| "add_path_list b (p # ps) =
     (case add_path b p of
        Inl err \<Rightarrow> Inl err
      | Inr b' \<Rightarrow> add_path_list b' ps)"

text \<open>
  The argument of \<^verbatim>\<open>add_paths\<close> is one path (arrays of rank two) or a batch of paths (arrays
  of rank three); lines 103 and 104 turn the first into a batch of one. The paths of a batch
  are a list here, so they need not have the same horizon.
\<close>

datatype paths_arg = Single path | Batch "path list"

fun batch_of :: "paths_arg \<Rightarrow> path list" where
  "batch_of (Single p) = [p]"
| "batch_of (Batch ps) = ps"

definition add_paths :: "'z buffer_scheme \<Rightarrow> paths_arg \<Rightarrow> error + 'z buffer_scheme" where
  "add_paths b paths = add_path_list b (map split_observations (batch_of paths))"

subsection \<open>Sampling\<close>

text \<open>
  \<^verbatim>\<open>np.random.randint(low, high, n)\<close> returns \<open>n\<close> integers of the half-open interval
  from \<open>low\<close> to \<open>high\<close>, and raises \<^verbatim>\<open>ValueError\<close> when that interval is empty. numpy
  answers a request for no integers with the empty array before it looks at the bounds,
  so the error needs \<open>n > 0\<close>. The generator's state is the function \<open>rng\<close>, which
  gives the raw draw of each position.
\<close>

definition randint :: "(nat \<Rightarrow> nat) \<Rightarrow> nat \<Rightarrow> nat \<Rightarrow> nat \<Rightarrow> error + nat list" where
  "randint rng low high n =
     (if n = 0 then Inr []
      else if high \<le> low then Inl ValueError
      else Inr (map (\<lambda>i. low + rng i mod (high - low)) [0..<n]))"

text \<open>\<^verbatim>\<open>arr[indices]\<close>: an index out of range raises \<^verbatim>\<open>IndexError\<close>.\<close>

definition gather :: "'a list \<Rightarrow> nat list \<Rightarrow> error + 'a list" where
  "gather arr indices =
     (if list_all (\<lambda>i. i < length arr) indices then Inr (map (\<lambda>i. arr ! i) indices)
      else Inl IndexError)"

definition sample_batch :: "(nat \<Rightarrow> nat) \<Rightarrow> 'z buffer_scheme \<Rightarrow> nat \<Rightarrow> error + batch" where
  "sample_batch rng b num_samples =
     (case randint rng 0 (self_size b) num_samples of
        Inl err \<Rightarrow> Inl err
      | Inr indices \<Rightarrow>
      (case gather (self_observations b) indices of
        Inl err \<Rightarrow> Inl err
      | Inr obs \<Rightarrow>
      (case gather (self_next_observations b) indices of
        Inl err \<Rightarrow> Inl err
      | Inr nxts \<Rightarrow>
      (case gather (self_actions b) indices of
        Inl err \<Rightarrow> Inl err
      | Inr acts \<Rightarrow>
      (case gather (self_rewards b) indices of
        Inl err \<Rightarrow> Inl err
      | Inr rews \<Rightarrow>
      (case gather (self_terminals b) indices of
        Inl err \<Rightarrow> Inl err
      | Inr terms \<Rightarrow>
      (case gather (self_masks b) indices of
        Inl err \<Rightarrow> Inl err
      | Inr msks \<Rightarrow>
        Inr \<lparr>batch_observations = obs, batch_next_observations = nxts, batch_actions = acts,
             batch_rewards = rews, batch_terminals = terms, batch_masks = msks\<rparr>)))))))"

text \<open>
  \<^verbatim>\<open>self._observations[indices][:, 0]\<close>: the index 0 on the time axis raises
  \<^verbatim>\<open>IndexError\<close> when that axis is empty.
\<close>

definition first_rows :: "'a list list \<Rightarrow> error + 'a list" where
  "first_rows ws =
     (if list_all (\<lambda>w. 0 < length w) ws then Inr (map (\<lambda>w. w ! 0) ws) else Inl IndexError)"

definition sample_starts :: "(nat \<Rightarrow> nat) \<Rightarrow> 'z buffer_scheme \<Rightarrow> nat \<Rightarrow> error + real list list" where
  "sample_starts rng b num_samples =
     (case randint rng 0 (self_size b) num_samples of
        Inl err \<Rightarrow> Inl err
      | Inr indices \<Rightarrow>
      (case gather (self_observations b) indices of
        Inl err \<Rightarrow> Inl err
      | Inr ws \<Rightarrow> first_rows ws))"

subsection \<open>\<^verbatim>\<open>add_step\<close>\<close>

text \<open>The call raises at once; the buffer it was called on is returned beside the error.\<close>

definition add_step ::
  "'z buffer_scheme \<Rightarrow> real list \<Rightarrow> real list \<Rightarrow> real list \<Rightarrow> real \<Rightarrow> 8 word \<Rightarrow>
     (error + unit) \<times> 'z buffer_scheme" where
  "add_step b obs nxt act rew terminal = (Inl NotImplementedError, b)"

subsection \<open>The offline buffer\<close>

text \<open>
  Modelled from the spec: \<^verbatim>\<open>parse_into_trajectories\<close> of
  \<^verbatim>\<open>dynamics_toolbox.utils.sarsa_data_util\<close>, which is not among the sources. The flat
  dataset is cut after every transition \<open>t\<close> at which an episode ends: the last one, one
  whose terminal flag is set, and one whose next observation is not the observation of
  transition \<open>t + 1\<close>. Each piece keeps the five arrays of the dataset and has no mask.
\<close>

definition episode_ends :: "path \<Rightarrow> nat list" where
  "episode_ends d =
     filter (\<lambda>t. t + 1 = length (observations d) \<or> terminals d ! t \<noteq> 0 \<or>
                 next_observations d ! t \<noteq> observations d ! (t + 1))
       [0..<length (observations d)]"

fun cut_trajectories :: "path \<Rightarrow> nat \<Rightarrow> nat list \<Rightarrow> path list" where
  "cut_trajectories d lo [] = []"
| "cut_trajectories d lo (t # ts) =
     \<lparr>observations = py_slice (observations d) lo (t + 1),
      next_observations = py_slice (next_observations d) lo (t + 1),
      actions = py_slice (actions d) lo (t + 1),
      rewards = py_slice (rewards d) lo (t + 1),
      terminals = py_slice (terminals d) lo (t + 1),
      masks = None\<rparr> # cut_trajectories d (t + 1) ts"

definition parse_into_trajectories :: "path \<Rightarrow> path list" where
  "parse_into_trajectories d = cut_trajectories d 0 (episode_ends d)"

text \<open>
  Lines 222 to 225: the row \<^verbatim>\<open>path['next_observations'][[0]]\<close> is appended to the
  observations of a trajectory. The index 0 raises \<^verbatim>\<open>IndexError\<close> on a trajectory without
  transitions.
\<close>

definition append_next_observation :: "path \<Rightarrow> error + path" where
  "append_next_observation path =
     (if next_observations path = [] then Inl IndexError
      else Inr (path\<lparr>observations := observations path @ [next_observations path ! 0]\<rparr>))"

text \<open>Lines 221 to 226: the loop over the trajectories.\<close>

fun add_trajectories :: "'z buffer_scheme \<Rightarrow> path list \<Rightarrow> error + 'z buffer_scheme" where
  "add_trajectories b [] = Inr b"
| "add_trajectories b (path # paths) =
     (case append_next_observation path of
        Inl err \<Rightarrow> Inl err
      | Inr p \<Rightarrow>
          (case add_paths b (Single p) of
             Inl err \<Rightarrow> Inl err
           | Inr b' \<Rightarrow> add_trajectories b' paths))"

text \<open>
  \<^verbatim>\<open>shape[-1]\<close> of an array of rows. An empty array has no row to read the width from;
  the buffer built from it has no slot, and the width is taken to be 0.
\<close>

definition last_dim :: "'a list list \<Rightarrow> nat" where
  "last_dim rows = (case rows of [] \<Rightarrow> 0 | r # _ \<Rightarrow> length r)"

text \<open>
  The constructor of the offline buffer: the capacity is the number of transitions,
  \<^verbatim>\<open>self._starts\<close> is the array of observations of the dataset, and the trajectories are
  added one by one. Rewards and terminals are lists of values already, so the two
  \<^verbatim>\<open>reshape(-1, 1)\<close> change nothing.
\<close>

definition offline_init :: "path \<Rightarrow> nat \<Rightarrow> error + offline_buffer" where
  "offline_init data lookback =
     add_trajectories
       ((clear_buffer
          \<lparr>self_obs_dim = last_dim (observations data), self_act_dim = last_dim (actions data),
           self_max_size = length (actions data), self_lookback = lookback,
           self_observations = [], self_next_observations = [], self_actions = [],
           self_rewards = [], self_terminals = [], self_masks = [], self_top = 0,
           self_size = 0, self_starts = []\<rparr>)\<lparr>self_starts := observations data\<rparr>)
       (parse_into_trajectories data)"


section \<open>Auxiliary notions for the proofs\<close>


text \<open>
  The invariant of a buffer of positive capacity: every array has one window for each
  slot, every window has the rows its shape asks for (\<open>L\<close>, or \<open>L + 1\<close> for actions
  and rewards), the cursor is a slot, the size is at most the capacity, and until the
  buffer is full the cursor is the size. The constructor establishes it and
  \<^verbatim>\<open>add_paths\<close> keeps it.
\<close>

definition buffer_ok :: "'z buffer_scheme \<Rightarrow> bool" where
  "buffer_ok b \<longleftrightarrow>
     0 < self_max_size b \<and>
     length (self_observations b) = self_max_size b \<and>
     length (self_next_observations b) = self_max_size b \<and>
     length (self_actions b) = self_max_size b \<and>
     length (self_rewards b) = self_max_size b \<and>
     length (self_terminals b) = self_max_size b \<and>
     length (self_masks b) = self_max_size b \<and>
     list_all (\<lambda>w. length w = self_lookback b) (self_observations b) \<and>
     list_all (\<lambda>w. length w = self_lookback b) (self_next_observations b) \<and>
     list_all (\<lambda>w. length w = self_lookback b + 1) (self_actions b) \<and>
     list_all (\<lambda>w. length w = self_lookback b + 1) (self_rewards b) \<and>
     list_all (\<lambda>w. length w = self_lookback b) (self_terminals b) \<and>
     list_all (\<lambda>w. length w = self_lookback b) (self_masks b) \<and>
     self_top b < self_max_size b \<and>
     self_size b \<le> self_max_size b \<and>
     (self_size b < self_max_size b \<longrightarrow> self_top b = self_size b)"


text \<open>
  \<^verbatim>\<open>end\<close> of line 120.
\<close>

definition window_end :: "nat \<Rightarrow> nat \<Rightarrow> nat \<Rightarrow> nat" where
  "window_end lb len strt = min (strt + lb) (strt + len)"







text \<open>
  The two loops of \<^verbatim>\<open>add_paths\<close> flattened: a job is a path with one of its start
  offsets, and the jobs are run in the order of the loops.
\<close>

fun write_jobs :: "'z buffer_scheme \<Rightarrow> (path \<times> nat) list \<Rightarrow> error + 'z buffer_scheme" where
  "write_jobs b [] = Inr b"
| "write_jobs b ((q, strt) # js) =
     (case write_window b q (path_length q) strt of
        Inl err \<Rightarrow> Inl err
      | Inr b' \<Rightarrow> write_jobs b' js)"



text \<open>
  The jobs of a list of paths, in the order in which \<^verbatim>\<open>add_paths\<close> writes them.
\<close>

definition jobs_of :: "nat \<Rightarrow> path list \<Rightarrow> (path \<times> nat) list" where
  "jobs_of lb qs = concat (map (\<lambda>q. map (Pair q) (window_starts lb (path_length q))) qs)"


definition split_all :: "paths_arg list \<Rightarrow> path list" where
  "split_all as = concat (map (\<lambda>a. map split_observations (batch_of a)) as)"


text \<open>
  Ones followed by zeros: after the leading ones of the row, every entry is zero.
\<close>

definition is_prefix_mask :: "8 word list \<Rightarrow> bool" where
  "is_prefix_mask w \<longleftrightarrow> list_all (\<lambda>x. x = 0) (dropWhile (\<lambda>x. x = 1) w)"


section \<open>Paths and datasets of the examples\<close>


definition padded_episode :: path where
  "padded_episode =
     \<lparr>observations = [[7], [8]], next_observations = [], actions = [[9]], rewards = [1],
      terminals = [0], masks = Some [0]\<rparr>"




definition empty_episode :: path where
  "empty_episode =
     \<lparr>observations = [[0]], next_observations = [], actions = [], rewards = [],
      terminals = [], masks = None\<rparr>"

definition zero_rng :: "nat \<Rightarrow> nat" where
  "zero_rng i = 0"

definition masked_episode :: path where
  "masked_episode =
     \<lparr>observations = [[1], [2], [3], [4]], next_observations = [],
      actions = [[1], [2], [3]], rewards = [1, 2, 3], terminals = [0, 0, 0],
      masks = Some [1, 0, 1]\<rparr>"

definition flat_two :: path where
  "flat_two =
     \<lparr>observations = [[0], [1]], next_observations = [[1], [2]], actions = [[5], [6]],
      rewards = [1, 1], terminals = [0, 1], masks = None\<rparr>"

definition known_episode :: path where
  "known_episode =
     \<lparr>observations = [[0], [1], [2]], next_observations = [], actions = [[5], [6]],
      rewards = [1, 1], terminals = [0, 1], masks = None\<rparr>"

section \<open>Properties\<close>

subsection \<open>Slices and the length of a path\<close>

lemma length_slice: "length (py_slice xs lo hi) = min (hi - lo) (length xs - lo)"
  by (simp add: py_slice_def)



lemma filter_upt_first:
  "filter P [0..<n] = i # rest \<Longrightarrow> j < i \<Longrightarrow> \<not> P j"
proof (induction n arbitrary: i rest)
  case 0
  then show ?case by simp
next
  case (Suc n)
  show ?case
  proof (cases "filter P [0..<n]")
    case Nil
    with Suc.prems have "i = n" by (simp split: if_splits)
    moreover from Nil have "\<forall>k<n. \<not> P k" by (auto simp: filter_empty_conv)
    ultimately show ?thesis using Suc.prems by simp
  next
    case (Cons a as)
    with Suc.prems have "a = i" by (simp split: if_splits)
    with Cons Suc.IH Suc.prems show ?thesis by blast
  qed
qed


lemma path_length_mask_one:
  assumes "masks p = Some m" and "i < path_length p" and "i < length m"
  shows "m ! i = 1"
proof (cases "argwhere_minus_one m")
  case Nil
  then have "\<forall>k<length m. \<not> (m ! k - 1 \<noteq> 0)"
    by (auto simp: argwhere_minus_one_def filter_empty_conv)
  with assms(3) show ?thesis by simp
next
  case (Cons a as)
  with assms have "i < a" by (simp add: path_length_def)
  with Cons have "\<not> (m ! i - 1 \<noteq> 0)"
    unfolding argwhere_minus_one_def by (rule filter_upt_first)
  then show ?thesis by simp
qed

subsection \<open>Window bounds\<close>



lemma window_starts_mem:
  "strt \<in> set (window_starts lb len) \<longleftrightarrow> strt \<le> len - lb"
  by (auto simp: window_starts_def)

lemma window_end_le:
  "strt \<in> set (window_starts lb len) \<Longrightarrow> window_end lb len strt \<le> len"
  by (auto simp: window_starts_mem window_end_def)


lemma window_end_ge: "strt \<le> window_end lb len strt"
  by (simp add: window_end_def)



subsection \<open>One window written into a well-formed buffer\<close>








subsection \<open>The buffer after one window\<close>



lemma list_all_update:
  "list_all P xs \<Longrightarrow> P x \<Longrightarrow> list_all P (xs[i := x])"
  using set_update_subset_insert[of xs i x] by (auto simp: list_all_iff)









subsection \<open>A sequence of windows on the ring\<close>


subsection \<open>The loops of add_paths as one sequence of windows\<close>

lemma advance_static:
  "advance b = Inr b' \<Longrightarrow>
     self_lookback b' = self_lookback b \<and> self_max_size b' = self_max_size b \<and>
     self_obs_dim b' = self_obs_dim b \<and> self_act_dim b' = self_act_dim b \<and>
     buffer.more b' = buffer.more b"
  by (auto simp: advance_def split: if_splits)

lemma write_window_static:
  assumes "write_window b q len s = Inr b'"
  shows "self_lookback b' = self_lookback b \<and> self_max_size b' = self_max_size b \<and>
     self_obs_dim b' = self_obs_dim b \<and> self_act_dim b' = self_act_dim b \<and>
     buffer.more b' = buffer.more b"
  using assms unfolding write_window_def Let_def
  by (auto split: sum.splits dest!: advance_static)

lemma write_jobs_static:
  "write_jobs b js = Inr b' \<Longrightarrow>
     self_lookback b' = self_lookback b \<and> self_max_size b' = self_max_size b \<and>
     self_obs_dim b' = self_obs_dim b \<and> self_act_dim b' = self_act_dim b \<and>
     buffer.more b' = buffer.more b"
proof (induction js arbitrary: b)
  case Nil
  then show ?case by simp
next
  case (Cons j js)
  obtain q s where j: "j = (q, s)" by (cases j)
  from Cons.prems j obtain b1 where b1: "write_window b q (path_length q) s = Inr b1"
    and r: "write_jobs b1 js = Inr b'"
    by (auto split: sum.splits)
  from Cons.IH[OF r] write_window_static[OF b1] show ?case by simp
qed

lemma write_jobs_append:
  "write_jobs b (xs @ ys) =
     (case write_jobs b xs of Inl err \<Rightarrow> Inl err | Inr b' \<Rightarrow> write_jobs b' ys)"
  by (induction xs arbitrary: b) (auto split: sum.splits)

lemma write_windows_jobs:
  "write_windows b q (path_length q) ss = write_jobs b (map (Pair q) ss)"
  by (induction ss arbitrary: b) (auto split: sum.splits)

lemma add_path_jobs:
  "add_path b q = write_jobs b (jobs_of (self_lookback b) [q])"
  by (simp add: add_path_def Let_def jobs_of_def write_windows_jobs)

lemma jobs_of_Cons: "jobs_of lb (q # qs) = jobs_of lb [q] @ jobs_of lb qs"
  by (simp add: jobs_of_def)


lemma add_path_list_jobs:
  "add_path_list b qs = write_jobs b (jobs_of (self_lookback b) qs)"
proof (induction qs arbitrary: b)
  case Nil
  then show ?case by (simp add: jobs_of_def)
next
  case (Cons q qs)
  show ?case
  proof (cases "add_path b q")
    case (Inl err)
    then show ?thesis
      by (simp add: jobs_of_Cons[of _ q qs] write_jobs_append add_path_jobs[symmetric])
  next
    case (Inr b1)
    then have "self_lookback b1 = self_lookback b"
      by (simp add: add_path_jobs write_jobs_static)
    with Inr Cons.IH[of b1] show ?thesis
      by (simp add: jobs_of_Cons[of _ q qs] write_jobs_append add_path_jobs[symmetric])
  qed
qed

lemma add_paths_jobs:
  "add_paths b a = write_jobs b (jobs_of (self_lookback b) (split_all [a]))"
  by (simp add: add_paths_def add_path_list_jobs split_all_def)




subsection \<open>Coverage\<close>

lemma init_ok: "0 < n \<Longrightarrow> buffer_ok (init od ad n lb)"
  by (simp add: init_def clear_buffer_def buffer_ok_def list_all_iff)








subsection \<open>The single-step append and paths of length zero\<close>

lemma init_fields:
  "self_lookback (init od ad n lb) = lb" "self_max_size (init od ad n lb) = n"
  "self_top (init od ad n lb) = 0" "self_size (init od ad n lb) = 0"
  "self_obs_dim (init od ad n lb) = od" "self_act_dim (init od ad n lb) = ad"
  by (simp_all add: init_def clear_buffer_def)


text \<open>
  C8. \<^verbatim>\<open>add_step\<close> raises \<^verbatim>\<open>NotImplementedError\<close> for every buffer and every argument
  tuple, and the buffer it was called on is unchanged.
\<close>

theorem add_step_rejects:
  "fst (add_step b obs nxt act rew terminal) = Inl NotImplementedError \<and>
   snd (add_step b obs nxt act rew terminal) = b"
  by (simp add: add_step_def)

lemma argwhere_zero_first:
  assumes "m \<noteq> []" and "m ! 0 = 0"
  shows "\<exists>rest. argwhere_minus_one m = 0 # rest"
proof -
  have "[0..<length m] = 0 # [1..<length m]" using assms(1) by (simp add: upt_conv_Cons)
  moreover have "m ! 0 - 1 \<noteq> (0::8 word)" using assms(2) by simp
  ultimately show ?thesis by (simp add: argwhere_minus_one_def)
qed

lemma path_length_zero:
  assumes "masks q = Some m" and "m \<noteq> []" and "m ! 0 = 0"
  shows "path_length q = 0"
  using argwhere_zero_first[OF assms(2,3)] assms(1) by (auto simp: path_length_def)

lemma store_rows_empty:
  "t < length buff \<Longrightarrow> store_rows buff t lo (lo + 0) [] = Inr buff"
  by (simp add: store_rows_def set_slice_def py_slice_def)

lemma write_window_empty:
  assumes ok: "buffer_ok b" and m: "masks q \<noteq> None"
  shows "write_window b q 0 0 =
     Inr (b\<lparr>self_masks := (self_masks b)[self_top b := replicate (self_lookback b) 0],
            self_top := (self_top b + 1) mod self_max_size b,
            self_size := min (self_max_size b) (self_size b + 1)\<rparr>)"
proof -
  let ?t = "self_top b"
  have t: "?t < length (self_actions b)" "?t < length (self_rewards b)"
    "?t < length (self_observations b)" "?t < length (self_next_observations b)"
    "?t < length (self_terminals b)" "?t < length (self_masks b)"
    using ok by (simp_all add: buffer_ok_def)
  have l: "length (self_masks b ! ?t) = self_lookback b"
    using ok by (simp add: buffer_ok_def list_all_length)
  have sl: "py_slice xs 0 0 = []" for xs :: "'x list" by (simp add: py_slice_def)
  have s1: "store_rows buff ?t 1 (0 - 0 + 1) [] = Inr buff" if "?t < length buff" for buff :: "'x list list"
    using store_rows_empty[OF that, of 1] by simp
  have s0: "store_rows buff ?t 0 (0 - 0) [] = Inr buff" if "?t < length buff" for buff :: "'x list list"
    using store_rows_empty[OF that, of 0] by simp
  have f: "fill_rows (self_masks b) ?t (0 - 0) (length (self_masks b ! ?t)) 0
      = Inr ((self_masks b)[?t := replicate (self_lookback b) 0])"
    using t l by (simp add: fill_rows_def fill_slice_def py_slice_def)
  have N: "self_max_size b \<noteq> 0" using ok by (simp add: buffer_ok_def)
  from m obtain mm where mm: "masks q = Some mm" by auto
  have e: "min (0 + self_lookback b) (0 + 0) = 0" by simp
  have adv: "advance (b\<lparr>self_actions := self_actions b, self_rewards := self_rewards b,
        self_observations := self_observations b,
        self_next_observations := self_next_observations b,
        self_terminals := self_terminals b,
        self_masks := (self_masks b)[?t := replicate (self_lookback b) 0]\<rparr>) =
     Inr (b\<lparr>self_masks := (self_masks b)[?t := replicate (self_lookback b) 0],
            self_top := (?t + 1) mod self_max_size b,
            self_size := min (self_max_size b) (self_size b + 1)\<rparr>)"
    using N ok by (auto simp: advance_def min_def buffer_ok_def)
  show ?thesis
    unfolding write_window_def Let_def
    by (simp only: e sl s1[OF t(1)] s1[OF t(2)] s0[OF t(3)] s0[OF t(4)] s0[OF t(5)]
        s0[OF t(6)] mm option.case sum.case f adv)
qed

text \<open>
  C10. A path whose mask is zero at index 0 has length 0. \<^verbatim>\<open>add_paths\<close> still writes one
  window for it: every slice that is copied is empty, so the observations, next
  observations, actions, rewards and terminals of the buffer are what they were; the mask
  of the slot at the cursor becomes all zero; the cursor advances and the size grows (up to
  the capacity). The slot that was written lies below the new size, which is the range
  \<^verbatim>\<open>sample_batch\<close> draws its indices from.
\<close>

theorem add_paths_zero_length:
  assumes ok: "buffer_ok b" and mk: "masks p = Some m" and ne: "m \<noteq> []" and z: "m ! 0 = 0"
  shows "path_length (split_observations p) = 0 \<and>
     window_starts (self_lookback b) 0 = [0] \<and>
     add_paths b (Single p) =
       Inr (b\<lparr>self_masks := (self_masks b)[self_top b := replicate (self_lookback b) 0],
              self_top := (self_top b + 1) mod self_max_size b,
              self_size := min (self_max_size b) (self_size b + 1)\<rparr>) \<and>
     self_top b < min (self_max_size b) (self_size b + 1)"
proof -
  let ?q = "split_observations p"
  have mq: "masks ?q = Some m" using mk by (simp add: split_observations_def)
  have len: "path_length ?q = 0" using mq ne z by (rule path_length_zero)
  have st: "window_starts (self_lookback b) 0 = [0]" by (simp add: window_starts_def)
  have "write_window b ?q 0 0 =
     Inr (b\<lparr>self_masks := (self_masks b)[self_top b := replicate (self_lookback b) 0],
            self_top := (self_top b + 1) mod self_max_size b,
            self_size := min (self_max_size b) (self_size b + 1)\<rparr>)"
    using ok mq by (intro write_window_empty) simp_all
  then have a: "add_paths b (Single p) =
     Inr (b\<lparr>self_masks := (self_masks b)[self_top b := replicate (self_lookback b) 0],
            self_top := (self_top b + 1) mod self_max_size b,
            self_size := min (self_max_size b) (self_size b + 1)\<rparr>)"
    by (simp add: add_paths_def add_path_def len st)
  have r: "self_top b < min (self_max_size b) (self_size b + 1)"
    using ok by (auto simp: buffer_ok_def)
  show ?thesis using len st a r by blast
qed

theorem add_paths_zero_length_witness:
  "buffer_ok (init 1 1 2 2) \<and> masks padded_episode = Some [0] \<and>
   add_paths (init 1 1 2 2) (Single padded_episode) =
     Inr ((init 1 1 2 2)\<lparr>self_masks := [[0, 0], [0, 0]], self_top := 1, self_size := 1\<rparr>)"
proof -
  let ?b = "init 1 1 2 2"
  have ok: "buffer_ok ?b" by (simp add: init_ok)
  have mk: "masks padded_episode = Some [0]" by (simp add: padded_episode_def)
  have ne: "[0::8 word] \<noteq> []" by simp
  have z: "[0::8 word] ! 0 = 0" by simp
  have r: "add_paths ?b (Single padded_episode) =
       Inr (?b\<lparr>self_masks := (self_masks ?b)[self_top ?b := replicate (self_lookback ?b) 0],
              self_top := (self_top ?b + 1) mod self_max_size ?b,
              self_size := min (self_max_size ?b) (self_size ?b + 1)\<rparr>)"
    using add_paths_zero_length[OF ok mk ne z] by blast
  have m: "(self_masks ?b)[self_top ?b := replicate (self_lookback ?b) 0] = [[0, 0], [0, 0]]"
    by (simp add: init_def clear_buffer_def numeral_2_eq_2)
  have tp: "(self_top ?b + 1) mod self_max_size ?b = 1" by (simp add: init_fields)
  have sz: "min (self_max_size ?b) (self_size ?b + 1) = 1" by (simp add: init_fields)
  from r have "add_paths ?b (Single padded_episode) =
       Inr (?b\<lparr>self_masks := [[0, 0], [0, 0]], self_top := 1, self_size := 1\<rparr>)"
    by (simp only: m tp sz)
  with ok mk show ?thesis by blast
qed

subsection \<open>Ring overwrite\<close>


lemma randint_range:
  "randint rng low high num = Inr idx \<Longrightarrow> list_all (\<lambda>i. low \<le> i \<and> i < high) idx"
proof -
  assume r: "randint rng low high num = Inr idx"
  show ?thesis
  proof (cases "num = 0")
    case True
    with r show ?thesis by (simp add: randint_def)
  next
    case False
    with r have lh: "low < high" and idx: "idx = map (\<lambda>i. low + rng i mod (high - low)) [0..<num]"
      by (auto simp: randint_def split: if_splits)
    have "low + rng i mod (high - low) < high" for i
    proof -
      have "rng i mod (high - low) < high - low" using lh by simp
      then show ?thesis by linarith
    qed
    then show ?thesis by (simp add: idx list_all_iff)
  qed
qed



subsection \<open>Episodes shorter than the lookback\<close>





lemmas run_defs =
  add_paths_def add_path_def write_window_def store_rows_def set_slice_def fill_rows_def
  fill_slice_def py_slice_def advance_def path_length_def split_observations_def
  window_starts_def init_def clear_buffer_def Let_def



subsection \<open>Action and reward padding\<close>






subsection \<open>The shape of stored masks\<close>

lemma ones_then_zeros_prefix: "is_prefix_mask (replicate a 1 @ replicate c 0)"
proof -
  have "dropWhile (\<lambda>x. x = 1) (replicate a (1::8 word) @ replicate c 0) = replicate c 0"
    by (induction a) (simp_all add: dropWhile_replicate)
  then show ?thesis by (simp add: is_prefix_mask_def list_all_iff)
qed

lemma mask_slice_all_ones:
  assumes "masks q = Some m" and "e \<le> path_length q"
  shows "py_slice m s e = replicate (length (py_slice m s e)) 1"
proof (rule nth_equalityI)
  show "length (py_slice m s e) = length (replicate (length (py_slice m s e)) (1::8 word))"
    by simp
next
  fix i assume i: "i < length (py_slice m s e)"
  then have b: "i < e - s" "s + i < length m" by (auto simp: length_slice)
  then have "m ! (s + i) = 1"
    using assms by (intro path_length_mask_one[of q]) auto
  with i b show "py_slice m s e ! i = replicate (length (py_slice m s e)) 1 ! i"
    by (simp add: py_slice_def)
qed

lemma set_slice_ones:
  assumes "set_slice row 0 n src = Inr r" and "src = replicate (length src) (1::8 word)"
  shows "r = replicate (min n (length row)) 1 @ drop (min n (length row)) row"
proof -
  have n': "length (py_slice row 0 n) = min n (length row)" by (simp add: length_slice)
  show ?thesis
  proof (cases "length src = min n (length row)")
    case True
    with assms(1) have "r = src @ drop (min n (length row)) row"
      by (simp add: set_slice_def n' Let_def)
    with assms(2) True show ?thesis by simp
  next
    case False
    with assms(1) have one: "length src = 1" and r: "r = replicate (min n (length row)) (hd src) @ drop (min n (length row)) row"
      by (auto simp: set_slice_def n' Let_def split: if_splits)
    from one assms(2) have "src = [1]" by simp
    with r show ?thesis by simp
  qed
qed

lemma fill_zero_from:
  assumes "r = replicate (min n (length row)) (1::8 word) @ drop (min n (length row)) row"
  shows "\<exists>a c. fill_slice r n (length r) 0 = replicate a 1 @ replicate c 0"
proof (cases "n \<le> length row")
  case True
  then have "fill_slice r n (length r) 0 = replicate n 1 @ replicate (length row - n) 0"
    unfolding assms by (simp add: fill_slice_def length_slice min_def)
  then show ?thesis by blast
next
  case False
  then have "fill_slice r n (length r) 0 = replicate (length row) 1 @ replicate 0 0"
    unfolding assms by (simp add: fill_slice_def length_slice min_def)
  then show ?thesis by blast
qed

lemma store_rows_Inr:
  assumes "store_rows buff t lo hi src = Inr buff'"
  obtains r where "t < length buff" and "set_slice (buff ! t) lo hi src = Inr r"
    and "buff' = buff[t := r]"
  using assms by (auto simp: store_rows_def split: if_splits sum.splits)

lemma fill_rows_Inr:
  assumes "fill_rows buff t lo hi v = Inr buff'"
  shows "t < length buff \<and> buff' = buff[t := fill_slice (buff ! t) lo hi v]"
  using assms by (auto simp: fill_rows_def split: if_splits)

lemma write_window_masks:
  assumes "write_window b q len s = Inr b'"
  shows "\<exists>msks. (case masks q of
              Some m \<Rightarrow> store_rows (self_masks b) (self_top b) 0
                 (min (s + self_lookback b) (s + len) - s)
                 (py_slice m s (min (s + self_lookback b) (s + len)))
            | None \<Rightarrow> fill_rows (self_masks b) (self_top b) 0
                 (min (s + self_lookback b) (s + len) - s) 1) = Inr msks \<and>
          fill_rows msks (self_top b) (min (s + self_lookback b) (s + len) - s)
            (length (msks ! self_top b)) 0 = Inr (self_masks b')"
  using assms unfolding write_window_def Let_def
  by (auto split: sum.splits if_splits simp: advance_def)

lemma window_end_le_length:
  "s \<in> set (window_starts lb len) \<Longrightarrow> min (s + lb) (s + len) \<le> len"
  using window_end_le[of s lb len] by (simp add: window_end_def)

lemma write_window_mask_row:
  assumes w: "write_window b q (path_length q) s = Inr b'"
    and s: "s \<in> set (window_starts (self_lookback b) (path_length q))"
  shows "\<exists>a c. self_masks b' = (self_masks b)[self_top b := replicate a 1 @ replicate c 0]"
proof -
  let ?t = "self_top b"
  let ?e = "min (s + self_lookback b) (s + path_length q)"
  let ?n = "?e - s"
  let ?row = "self_masks b ! ?t"
  let ?r = "replicate (min ?n (length ?row)) (1::8 word) @ drop (min ?n (length ?row)) ?row"
  from write_window_masks[OF w] obtain msks where
    m1: "(case masks q of
              Some m \<Rightarrow> store_rows (self_masks b) ?t 0 ?n (py_slice m s ?e)
            | None \<Rightarrow> fill_rows (self_masks b) ?t 0 ?n 1) = Inr msks"
    and m2: "fill_rows msks ?t ?n (length (msks ! ?t)) 0 = Inr (self_masks b')"
    by blast
  have ele: "?e \<le> path_length q" using s by (rule window_end_le_length)
  have t_r: "?t < length (self_masks b) \<and> msks = (self_masks b)[?t := ?r]"
  proof (cases "masks q")
    case None
    with m1 have "fill_rows (self_masks b) ?t 0 ?n 1 = Inr msks" by simp
    from fill_rows_Inr[OF this] show ?thesis
      by (simp add: fill_slice_def length_slice Let_def)
  next
    case (Some m)
    with m1 have "store_rows (self_masks b) ?t 0 ?n (py_slice m s ?e) = Inr msks" by simp
    then obtain r where t: "?t < length (self_masks b)"
      and r: "set_slice ?row 0 ?n (py_slice m s ?e) = Inr r"
      and ms: "msks = (self_masks b)[?t := r]"
      by (rule store_rows_Inr)
    have "py_slice m s ?e = replicate (length (py_slice m s ?e)) 1"
      using Some ele by (rule mask_slice_all_ones)
    with r have "r = ?r" by (rule set_slice_ones)
    with t ms show ?thesis by simp
  qed
  then have t: "?t < length (self_masks b)" and ms: "msks = (self_masks b)[?t := ?r]"
    by simp_all
  have nth: "msks ! ?t = ?r" using t ms by simp
  from fill_zero_from[OF refl, of ?n ?row] obtain a c where
    ac: "fill_slice ?r ?n (length ?r) 0 = replicate a 1 @ replicate c 0"
    by blast
  from fill_rows_Inr[OF m2] have "self_masks b' = msks[?t := fill_slice ?r ?n (length ?r) 0]"
    unfolding nth by simp
  then have "self_masks b' = (self_masks b)[?t := replicate a 1 @ replicate c 0]"
    unfolding ac ms by simp
  then show ?thesis by blast
qed

lemma write_window_prefix_masks:
  assumes "write_window b q (path_length q) s = Inr b'"
    and "s \<in> set (window_starts (self_lookback b) (path_length q))"
    and "list_all is_prefix_mask (self_masks b)"
  shows "list_all is_prefix_mask (self_masks b')"
proof -
  from write_window_mask_row[OF assms(1,2)] obtain a c where
    "self_masks b' = (self_masks b)[self_top b := replicate a 1 @ replicate c 0]"
    by blast
  with assms(3) show ?thesis
    by (simp add: list_all_update ones_then_zeros_prefix)
qed

lemma write_jobs_prefix_masks:
  assumes "write_jobs b js = Inr b'"
    and "list_all (\<lambda>j. snd j \<in> set (window_starts (self_lookback b) (path_length (fst j)))) js"
    and "list_all is_prefix_mask (self_masks b)"
  shows "list_all is_prefix_mask (self_masks b')"
  using assms
proof (induction js arbitrary: b)
  case Nil
  then show ?case by simp
next
  case (Cons j js)
  obtain q s where j: "j = (q, s)" by (cases j)
  from Cons.prems(1) j obtain b1 where b1: "write_window b q (path_length q) s = Inr b1"
    and r: "write_jobs b1 js = Inr b'"
    by (auto split: sum.splits)
  from Cons.prems(2) j have s: "s \<in> set (window_starts (self_lookback b) (path_length q))"
    by simp
  have m1: "list_all is_prefix_mask (self_masks b1)"
    using b1 s Cons.prems(3) by (rule write_window_prefix_masks)
  have L: "self_lookback b1 = self_lookback b" using write_window_static[OF b1] by simp
  have "list_all (\<lambda>j. snd j \<in> set (window_starts (self_lookback b1) (path_length (fst j)))) js"
    using Cons.prems(2) by (simp add: L)
  with Cons.IH[OF r] m1 show ?case by blast
qed

lemma jobs_of_starts:
  "list_all (\<lambda>j. snd j \<in> set (window_starts lb (path_length (fst j)))) (jobs_of lb qs)"
  by (auto simp: jobs_of_def list_all_iff)

lemma clear_buffer_prefix_masks: "list_all is_prefix_mask (self_masks (clear_buffer b))"
  by (simp add: clear_buffer_def list_all_iff is_prefix_mask_def dropWhile_replicate)

text \<open>
  C5 (mask shape). A mask row is a prefix mask when only zeros follow its leading ones.
  Every mask row is one after \<^verbatim>\<open>clear_buffer\<close>, and a call of \<^verbatim>\<open>add_paths\<close> that returns
  keeps it so, whatever masks the paths supply: the part of a supplied mask that is copied
  lies before the first entry that is not one, and the rest of the row is set to zero.
\<close>

theorem stored_masks_prefix:
  "list_all is_prefix_mask (self_masks (clear_buffer b0)) \<and>
   (list_all is_prefix_mask (self_masks b) \<and> add_paths b paths = Inr b' \<longrightarrow>
      list_all is_prefix_mask (self_masks b'))"
proof (intro conjI impI)
  show "list_all is_prefix_mask (self_masks (clear_buffer b0))"
    by (rule clear_buffer_prefix_masks)
next
  assume h: "list_all is_prefix_mask (self_masks b) \<and> add_paths b paths = Inr b'"
  then have "write_jobs b (jobs_of (self_lookback b) (split_all [paths])) = Inr b'"
    by (simp add: add_paths_jobs)
  moreover have "list_all (\<lambda>j. snd j \<in> set (window_starts (self_lookback b) (path_length (fst j))))
      (jobs_of (self_lookback b) (split_all [paths]))"
    by (rule jobs_of_starts)
  moreover from h have "list_all is_prefix_mask (self_masks b)" by simp
  ultimately show "list_all is_prefix_mask (self_masks b')"
    by (rule write_jobs_prefix_masks)
qed


theorem stored_masks_prefix_witness:
  "list_all is_prefix_mask (self_masks (init 1 1 2 2)) \<and>
   add_paths (init 1 1 2 2) (Single masked_episode) =
     Inr \<lparr>self_obs_dim = 1, self_act_dim = 1, self_max_size = 2, self_lookback = 2,
          self_observations = [[[1], [0]], [[0], [0]]],
          self_next_observations = [[[2], [0]], [[0], [0]]],
          self_actions = [[[0], [1], [0]], [[0], [0], [0]]],
          self_rewards = [[0, 1, 0], [0, 0, 0]],
          self_terminals = [[0, 0], [0, 0]], self_masks = [[1, 0], [0, 0]],
          self_top = 1, self_size = 1\<rparr> \<and>
   list_all is_prefix_mask [[1, 0], [0, 0]]"
proof -
  let ?b = "init 1 1 2 2"
  let ?b' = "\<lparr>self_obs_dim = 1, self_act_dim = 1, self_max_size = 2, self_lookback = 2,
          self_observations = [[[1], [0]], [[0], [0]]],
          self_next_observations = [[[2], [0]], [[0], [0]]],
          self_actions = [[[0], [1], [0]], [[0], [0], [0]]],
          self_rewards = [[0, 1, 0], [0, 0, 0]],
          self_terminals = [[0, 0], [0, 0]], self_masks = [[1, 0], [0, 0]],
          self_top = 1, self_size = 1\<rparr>"
  have h1: "list_all is_prefix_mask (self_masks ?b)"
    by (simp add: init_def clear_buffer_prefix_masks)
  have h2: "add_paths ?b (Single masked_episode) = Inr ?b'"
    by (simp add: run_defs masked_episode_def argwhere_minus_one_def numeral_2_eq_2 numeral_3_eq_3)
  from stored_masks_prefix[of ?b ?b "Single masked_episode" ?b'] h1 h2
  have "list_all is_prefix_mask (self_masks ?b')" by blast
  then have "list_all is_prefix_mask [[1, 0], [0, 0]]" by simp
  with h1 h2 show ?thesis by blast
qed

subsection \<open>Sampling\<close>

lemma gather_ok:
  "list_all (\<lambda>i. i < length arr) indices \<Longrightarrow> gather arr indices = Inr (map (\<lambda>i. arr ! i) indices)"
  by (simp add: gather_def)

lemma randint_empty:
  "0 < n \<Longrightarrow> randint rng 0 0 n = Inl ValueError"
  by (simp add: randint_def)

lemma randint_total:
  "0 < high \<Longrightarrow> \<exists>idx. randint rng 0 high n = Inr idx"
  by (simp add: randint_def)

text \<open>
  C7 (sampling from an empty buffer), as the code has it. With \<open>size = 0\<close>, a request for
  \<open>n > 0\<close> samples makes the random draw of \<^verbatim>\<open>sample_batch\<close> and of the online
  \<^verbatim>\<open>sample_starts\<close> raise \<^verbatim>\<open>ValueError\<close>. With \<open>size > 0\<close>, \<^verbatim>\<open>sample_batch\<close> returns a
  batch for every \<open>n\<close>, and \<^verbatim>\<open>sample_starts\<close> returns when the lookback is positive.
\<close>

theorem sampling_empty_buffer:
  "(0 < n \<and> self_size b = 0 \<longrightarrow>
      sample_batch rng b n = Inl ValueError \<and> sample_starts rng b n = Inl ValueError) \<and>
   (buffer_ok b \<and> 0 < self_size b \<longrightarrow>
      (\<exists>bt. sample_batch rng b n = Inr bt) \<and>
      (0 < self_lookback b \<longrightarrow> (\<exists>xs. sample_starts rng b n = Inr xs)))"
proof (intro conjI impI)
  assume "0 < n \<and> self_size b = 0"
  then show "sample_batch rng b n = Inl ValueError" "sample_starts rng b n = Inl ValueError"
    by (simp_all add: sample_batch_def sample_starts_def randint_empty)
next
  assume h: "buffer_ok b \<and> 0 < self_size b"
  then obtain idx where idx: "randint rng 0 (self_size b) n = Inr idx"
    using randint_total by blast
  from randint_range[OF idx] h have r: "list_all (\<lambda>i. i < self_max_size b) idx"
    by (auto simp: list_all_iff buffer_ok_def)
  have g: "gather (self_observations b) idx = Inr (map (\<lambda>i. self_observations b ! i) idx)"
    "gather (self_next_observations b) idx = Inr (map (\<lambda>i. self_next_observations b ! i) idx)"
    "gather (self_actions b) idx = Inr (map (\<lambda>i. self_actions b ! i) idx)"
    "gather (self_rewards b) idx = Inr (map (\<lambda>i. self_rewards b ! i) idx)"
    "gather (self_terminals b) idx = Inr (map (\<lambda>i. self_terminals b ! i) idx)"
    "gather (self_masks b) idx = Inr (map (\<lambda>i. self_masks b ! i) idx)"
    using r h by (simp_all add: gather_ok buffer_ok_def)
  show "\<exists>bt. sample_batch rng b n = Inr bt"
    by (simp add: sample_batch_def idx g)
  show "\<exists>xs. sample_starts rng b n = Inr xs" if L: "0 < self_lookback b"
  proof -
    have "0 < length (self_observations b ! i)" if "i \<in> set idx" for i
    proof -
      from that r have "i < self_max_size b" by (simp add: list_all_iff)
      with h have "length (self_observations b ! i) = self_lookback b"
        by (simp add: buffer_ok_def list_all_length)
      with L show ?thesis by simp
    qed
    then have "list_all (\<lambda>w. 0 < length w) (map (\<lambda>i. self_observations b ! i) idx)"
      by (simp add: list_all_iff)
    then show ?thesis by (simp add: sample_starts_def idx g first_rows_def)
  qed
qed

theorem sampling_empty_buffer_witness:
  "self_size (init 1 1 2 2) = 0 \<and>
   sample_batch zero_rng (init 1 1 2 2) 3 = Inl ValueError \<and>
   sample_starts zero_rng (init 1 1 2 2) 3 = Inl ValueError \<and>
   buffer_ok ((init 1 1 2 2)\<lparr>self_top := 1, self_size := 1\<rparr>) \<and>
   (\<exists>bt. sample_batch zero_rng ((init 1 1 2 2)\<lparr>self_top := 1, self_size := 1\<rparr>) 3 = Inr bt) \<and>
   (\<exists>xs. sample_starts zero_rng ((init 1 1 2 2)\<lparr>self_top := 1, self_size := 1\<rparr>) 3 = Inr xs)"
proof -
  let ?b = "init 1 1 2 2"
  let ?c = "?b\<lparr>self_top := 1, self_size := 1\<rparr>"
  have e: "self_size ?b = 0" by (simp add: init_fields)
  have ok: "buffer_ok ?c"
    using init_ok[of 2 1 1 2] by (simp add: buffer_ok_def init_fields)
  have s: "0 < self_size ?c" "0 < self_lookback ?c" by (simp_all add: init_fields)
  have n: "0 < (3::nat)" by simp
  from sampling_empty_buffer[of 3 ?b zero_rng] e n
  have "sample_batch zero_rng ?b 3 = Inl ValueError \<and> sample_starts zero_rng ?b 3 = Inl ValueError"
    by blast
  moreover from sampling_empty_buffer[of 3 ?c zero_rng] ok s
  have "(\<exists>bt. sample_batch zero_rng ?c 3 = Inr bt) \<and> (\<exists>xs. sample_starts zero_rng ?c 3 = Inr xs)"
    by blast
  ultimately show ?thesis using e ok by blast
qed

text \<open>
  Two calls that go the other way. A request for no samples returns the empty batch from an
  empty buffer. A buffer of lookback 0 has size 1 after one path, and \<^verbatim>\<open>sample_starts\<close>
  raises \<^verbatim>\<open>IndexError\<close> on it.
\<close>

theorem sampling_counterexample:
  "sample_batch zero_rng (init 1 1 1 1) 0 =
     Inr \<lparr>batch_observations = [], batch_next_observations = [], batch_actions = [],
          batch_rewards = [], batch_terminals = [], batch_masks = []\<rparr> \<and>
   self_size (init 1 1 1 1) = 0 \<and>
   add_paths (init 1 1 1 0) (Single empty_episode) =
     Inr \<lparr>self_obs_dim = 1, self_act_dim = 1, self_max_size = 1, self_lookback = 0,
          self_observations = [[]], self_next_observations = [[]],
          self_actions = [[[0]]], self_rewards = [[0]],
          self_terminals = [[]], self_masks = [[]], self_top = 0, self_size = 1\<rparr> \<and>
   sample_starts zero_rng
     \<lparr>self_obs_dim = 1, self_act_dim = 1, self_max_size = 1, self_lookback = 0,
      self_observations = [[]], self_next_observations = [[]],
      self_actions = [[[0]]], self_rewards = [[0]],
      self_terminals = [[]], self_masks = [[]], self_top = 0, self_size = 1\<rparr> 1 =
     Inl IndexError"
  by (simp add: run_defs empty_episode_def sample_batch_def sample_starts_def randint_def
      gather_def first_rows_def zero_rng_def)

subsection \<open>The offline buffer: construction and start states\<close>

lemmas offline_defs =
  offline_init_def add_trajectories.simps append_next_observation_def last_dim_def
  parse_into_trajectories_def episode_ends_def cut_trajectories.simps

text \<open>
  C3 (offline and online construction). The flat dataset \<open>flat_two\<close> is the one episode
  \<open>known_episode\<close> of two transitions, whose observations are 0, 1 and the terminal
  next observation 2. The offline constructor recovers the episode but appends the first
  next observation, 1, where the terminal one, 2, is due: the window it stores has the next
  observations 1, 1, and the window stored by \<^verbatim>\<open>add_paths\<close> for the episode has 1, 2.
\<close>

theorem offline_appends_first_next_observation:
  "parse_into_trajectories flat_two = [flat_two] \<and>
   append_next_observation flat_two = Inr (flat_two\<lparr>observations := [[0], [1], [1]]\<rparr>) \<and>
   map_sum id self_next_observations (offline_init flat_two 2) = Inr [[[1], [1]], [[0], [0]]] \<and>
   map_sum id self_next_observations (add_paths (init 1 1 2 2) (Single known_episode)) =
     Inr [[[1], [2]], [[0], [0]]]"
  by (simp add: offline_defs run_defs flat_two_def known_episode_def numeral_2_eq_2)








end
